theory Spec2Isabelle
  imports Complex_Main "HOL-Library.Multiset"
begin

section \<open>Data model (types.ts)\<close>

text \<open>
  The wire types of \<^verbatim>\<open>types.ts\<close>. A \<^verbatim>\<open>ChatMessage\<close> is the union of
  \<^verbatim>\<open>YouTubeMessage\<close> and \<^verbatim>\<open>DiscordMessage\<close>, told apart by the \<^verbatim>\<open>platform\<close>
  tag; the two optional fields (\<^verbatim>\<open>attachments\<close>, \<^verbatim>\<open>edited\<close>) are \<open>None\<close> when the
  JavaScript object has no such property. The field \<^verbatim>\<open>id\<close> is called \<open>ident\<close>, since
  \<open>id\<close> is HOL's identity function. Timestamps are integral milliseconds since the
  epoch.
\<close>

datatype platform = discord | youtube

record Author =
  name :: string
  avatar :: string

record ChatMessage =
  platform :: platform
  ident :: string
  timestamp :: int
  author :: Author
  content :: string
  attachments :: "string list option"
  edited :: "bool option"

record DiscordEditedMessage =
  edit_ident :: string
  edit_timestamp :: int
  edit_content :: string

record DeletedMessage =
  del_platform :: platform
  del_ident :: string

datatype Message =
    MsgChat ChatMessage
  | MsgDelete DeletedMessage
  | MsgHistory "ChatMessage list"
  | MsgEdit DiscordEditedMessage

section \<open>Server: history buffer and broadcast (index.ts)\<close>

text \<open>
  The module-level state of the server: the \<^verbatim>\<open>Set\<close> of sockets \<^verbatim>\<open>clients\<close> (a
  JavaScript \<^verbatim>\<open>Set\<close> iterates in insertion order, so it is a list without
  duplicates), the array \<^verbatim>\<open>messageBuffer\<close>, and, to observe what \<^verbatim>\<open>send\<close> did,
  the log \<open>outbox\<close> of the payloads the transport accepted, oldest first. A payload
  is \<^verbatim>\<open>JSON.stringify(message)\<close>; the log keeps the message it was made from.
\<close>

type_synonym ws = nat

record server =
  clients :: "ws list"
  messageBuffer :: "ChatMessage list"
  outbox :: "(ws \<times> Message) list"

definition MAX_BUFFER_SIZE :: nat where
  "MAX_BUFFER_SIZE = 100"

text \<open>\<^verbatim>\<open>push\<close>, then \<^verbatim>\<open>splice(0, length - MAX_BUFFER_SIZE)\<close> when the array is too long.\<close>

definition addToBuffer :: "ChatMessage \<Rightarrow> server \<Rightarrow> server" where
  "addToBuffer message s =
     (let pushed = messageBuffer s @ [message]
      in if length pushed > MAX_BUFFER_SIZE
         then s\<lparr>messageBuffer := drop (length pushed - MAX_BUFFER_SIZE) pushed\<rparr>
         else s\<lparr>messageBuffer := pushed\<rparr>)"

definition removeFromBuffer :: "string \<Rightarrow> server \<Rightarrow> server" where
  "removeFromBuffer i s =
     s\<lparr>messageBuffer := filter (\<lambda>message. ident message \<noteq> i) (messageBuffer s)\<rparr>"

definition editInBuffer :: "string \<Rightarrow> string \<Rightarrow> server \<Rightarrow> server" where
  "editInBuffer i c s =
     s\<lparr>messageBuffer :=
         map (\<lambda>message. if ident message = i
                         then message\<lparr>content := c, edited := Some True\<rparr>
                         else message)
             (messageBuffer s)\<rparr>"

text \<open>A run of appends, in arrival order.\<close>

definition appendAll :: "ChatMessage list \<Rightarrow> server \<Rightarrow> server" where
  "appendAll ms s = foldl (\<lambda>st m. addToBuffer m st) s ms"


subsection \<open>Sending\<close>

text \<open>
  \<^verbatim>\<open>client.send(payload)\<close> belongs to the runtime, not to this repository, so what
  it does for a given socket is a parameter: the transport takes the payload, or it
  reports the payload dropped through its return value (which the code ignores), or
  the call throws. A handler either returns or is left by an exception; both carry
  the module state as it is at that moment.
\<close>

datatype send_result = Sent | Dropped | Threw

type_synonym network = "ws \<Rightarrow> send_result"

datatype 'a result = Returned 'a | Raised 'a

definition send :: "network \<Rightarrow> ws \<Rightarrow> Message \<Rightarrow> server \<Rightarrow> server result" where
  "send net client payload s =
     (case net client of
        Sent \<Rightarrow> Returned (s\<lparr>outbox := outbox s @ [(client, payload)]\<rparr>)
      | Dropped \<Rightarrow> Returned s
      | Threw \<Rightarrow> Raised s)"

text \<open>\<^verbatim>\<open>clients.forEach((client) => { client.send(payload); })\<close>: no \<^verbatim>\<open>try\<close>.\<close>

fun forEach_send :: "network \<Rightarrow> Message \<Rightarrow> ws list \<Rightarrow> server \<Rightarrow> server result" where
  "forEach_send net payload [] s = Returned s"
| "forEach_send net payload (client # rest) s =
     (case send net client payload s of
        Returned s' \<Rightarrow> forEach_send net payload rest s'
      | Raised s' \<Rightarrow> Raised s')"

definition broadcastMessage :: "network \<Rightarrow> Message \<Rightarrow> server \<Rightarrow> server result" where
  "broadcastMessage net message s = forEach_send net message (clients s) s"

subsection \<open>Handler bodies as statement sequences\<close>

text \<open>
  The publishing handlers are straight-line sequences of calls to the four functions
  above. A body is the list of its calls in source order; \<open>run\<close> executes it from
  left to right and stops where a call throws.
\<close>

datatype stmt =
    AddToBuffer ChatMessage
  | BroadcastMessage Message
  | EditInBuffer string string
  | RemoveFromBuffer string

fun exec :: "network \<Rightarrow> stmt \<Rightarrow> server \<Rightarrow> server result" where
  "exec net (AddToBuffer message) s = Returned (addToBuffer message s)"
| "exec net (BroadcastMessage message) s = broadcastMessage net message s"
| "exec net (EditInBuffer i c) s = Returned (editInBuffer i c s)"
| "exec net (RemoveFromBuffer i) s = Returned (removeFromBuffer i s)"

fun run :: "network \<Rightarrow> stmt list \<Rightarrow> server \<Rightarrow> server result" where
  "run net [] s = Returned s"
| "run net (st # rest) s =
     (case exec net st s of
        Returned s' \<Rightarrow> run net rest s'
      | Raised s' \<Rightarrow> Raised s')"

definition broadcastChatMessage :: "ChatMessage \<Rightarrow> stmt list" where
  "broadcastChatMessage message = [AddToBuffer message, BroadcastMessage (MsgChat message)]"

subsection \<open>Discord handlers\<close>

text \<open>
  What the handlers read from a discord.js message: \<open>displayName\<close> and
  \<open>displayAvatarURL\<close> stand for the already resolved
  \<^verbatim>\<open>member?.displayName ?? author.displayName\<close> and its avatar counterpart.
\<close>

record DiscordEvent =
  inGuild :: bool
  channelId :: string
  message_id :: string
  createdTimestamp :: int
  editedTimestamp :: int
  displayName :: string
  displayAvatarURL :: string
  message_content :: string
  attachment_urls :: "string list"

definition DISCORD_CHANNEL_ID :: string where
  "DISCORD_CHANNEL_ID = ''1415867512398282813''"

definition messageCreate :: "DiscordEvent \<Rightarrow> stmt list" where
  "messageCreate ev =
     (if \<not> inGuild ev \<or> channelId ev \<noteq> DISCORD_CHANNEL_ID then []
      else broadcastChatMessage
             \<lparr>platform = discord, ident = message_id ev, timestamp = createdTimestamp ev,
              author = \<lparr>name = displayName ev, avatar = displayAvatarURL ev\<rparr>,
              content = message_content ev, attachments = Some (attachment_urls ev),
              edited = None\<rparr>)"

text \<open>The body of the update handler depends on the buffer through its guard.\<close>

definition messageUpdate :: "DiscordEvent \<Rightarrow> server \<Rightarrow> stmt list" where
  "messageUpdate newMessage s =
     (if \<not> inGuild newMessage \<or> channelId newMessage \<noteq> DISCORD_CHANNEL_ID \<or>
         find (\<lambda>m. ident m = message_id newMessage) (messageBuffer s) = None
      then []
      else [BroadcastMessage
              (MsgEdit \<lparr>edit_ident = message_id newMessage,
                        edit_timestamp = editedTimestamp newMessage,
                        edit_content = message_content newMessage\<rparr>),
            EditInBuffer (message_id newMessage) (message_content newMessage)])"

definition messageDelete :: "DiscordEvent \<Rightarrow> stmt list" where
  "messageDelete ev =
     (if \<not> inGuild ev \<or> channelId ev \<noteq> DISCORD_CHANNEL_ID then []
      else [BroadcastMessage (MsgDelete \<lparr>del_platform = discord, del_ident = message_id ev\<rparr>),
            RemoveFromBuffer (message_id ev)])"

subsection \<open>YouTube handler\<close>

text \<open>
  The actions of masterchat the handler switches on; every other action type falls
  through the \<^verbatim>\<open>switch\<close>. The chat text is the result of \<^verbatim>\<open>stringify\<close>.
\<close>

datatype action =
    AddChatItemAction string int "string option" string string
  | MarkChatItemAsDeletedAction string
  | OtherAction

fun action_body :: "action \<Rightarrow> stmt list" where
  "action_body (AddChatItemAction i t authorName authorPhoto text) =
     broadcastChatMessage
       \<lparr>platform = youtube, ident = i, timestamp = t,
        author = \<lparr>name = (case authorName of Some n \<Rightarrow> n | None \<Rightarrow> ''Unknown''),
                  avatar = authorPhoto\<rparr>,
        content = text, attachments = None, edited = None\<rparr>"
| "action_body (MarkChatItemAsDeletedAction targetId) =
     [BroadcastMessage (MsgDelete \<lparr>del_platform = youtube, del_ident = targetId\<rparr>),
      RemoveFromBuffer targetId]"
| "action_body OtherAction = []"

definition actions_handler :: "action list \<Rightarrow> stmt list" where
  "actions_handler actions = concat (map action_body actions)"

subsection \<open>WebSocket handlers\<close>

definition ws_open :: "network \<Rightarrow> ws \<Rightarrow> server \<Rightarrow> server result" where
  "ws_open net w s =
     (let s1 = s\<lparr>clients := (if w \<in> set (clients s) then clients s else clients s @ [w])\<rparr>
      in if length (messageBuffer s1) > 0
         then send net w (MsgHistory (messageBuffer s1)) s1
         else Returned s1)"

definition ws_close :: "ws \<Rightarrow> server \<Rightarrow> server" where
  "ws_close w s = s\<lparr>clients := removeAll w (clients s)\<rparr>"

subsection \<open>Observations on a handler body\<close>

text \<open>
  What a fan-out over the sockets \<open>cs\<close> adds to the log when no call throws: one
  entry for each socket whose transport takes the payload, in iteration order.
\<close>

definition delivered :: "network \<Rightarrow> Message \<Rightarrow> ws list \<Rightarrow> (ws \<times> Message) list" where
  "delivered net payload cs = map (\<lambda>c. (c, payload)) (filter (\<lambda>c. net c = Sent) cs)"

text \<open>
  The buffer as it is at the moment a body reaches its \<^verbatim>\<open>broadcastMessage\<close> call:
  the statements before the call are executed, the call itself is not.
\<close>

fun buffer_at_broadcast :: "network \<Rightarrow> stmt list \<Rightarrow> server \<Rightarrow> ChatMessage list option" where
  "buffer_at_broadcast net [] s = None"
| "buffer_at_broadcast net (BroadcastMessage message # rest) s = Some (messageBuffer s)"
| "buffer_at_broadcast net (st # rest) s =
     (case exec net st s of
        Returned s' \<Rightarrow> buffer_at_broadcast net rest s'
      | Raised s' \<Rightarrow> None)"

text \<open>
  A handler body runs to its end, leaving the buffer \<open>expected\<close>, and a socket \<open>w\<close>
  that connects next is sent exactly that buffer as its history (nothing when the
  buffer is empty).
\<close>

definition joins_after ::
  "network \<Rightarrow> stmt list \<Rightarrow> server \<Rightarrow> network \<Rightarrow> ws \<Rightarrow> ChatMessage list \<Rightarrow> bool" where
  "joins_after net body s net' w expected =
     (case run net body s of
        Raised s' \<Rightarrow> False
      | Returned s' \<Rightarrow>
          messageBuffer s' = expected \<and>
          (case ws_open net' w s' of
             Raised s'' \<Rightarrow> False
           | Returned s'' \<Rightarrow>
               outbox s'' =
                 outbox s' @ (if expected = [] then [] else [(w, MsgHistory expected)])))"

text \<open>
  The module state a handler leaves behind, whether it returned or was left by an
  exception.
\<close>

fun state_of :: "'a result \<Rightarrow> 'a" where
  "state_of (Returned s) = s"
| "state_of (Raised s) = s"

text \<open>
  A socket \<open>w\<close> that connects in the state \<open>s\<close> is sent exactly \<open>expected\<close> as its
  history (nothing when \<open>expected\<close> is empty).
\<close>

definition history_for :: "network \<Rightarrow> ws \<Rightarrow> server \<Rightarrow> ChatMessage list \<Rightarrow> bool" where
  "history_for net' w s expected =
     (case ws_open net' w s of
        Raised s'' \<Rightarrow> False
      | Returned s'' \<Rightarrow>
          outbox s'' = outbox s @ (if expected = [] then [] else [(w, MsgHistory expected)]))"

subsection \<open>The server as a whole\<close>

text \<open>
  Everything that changes the module state after start-up: the three Discord
  handlers, the masterchat \<^verbatim>\<open>actions\<close> handler and the two WebSocket handlers. Each
  event comes with what the transport does during that handler. An exception
  leaves the handler with the state as it is; the next event finds it so.
\<close>

datatype server_event =
    DiscordCreate DiscordEvent
  | DiscordUpdate DiscordEvent
  | DiscordDelete DiscordEvent
  | YouTubeActions "action list"
  | WsOpen ws
  | WsClose ws

fun server_step :: "server \<Rightarrow> network \<times> server_event \<Rightarrow> server" where
  "server_step s (net, DiscordCreate ev) = state_of (run net (messageCreate ev) s)"
| "server_step s (net, DiscordUpdate ev) = state_of (run net (messageUpdate ev s) s)"
| "server_step s (net, DiscordDelete ev) = state_of (run net (messageDelete ev) s)"
| "server_step s (net, YouTubeActions actions) = state_of (run net (actions_handler actions) s)"
| "server_step s (net, WsOpen w) = state_of (ws_open net w s)"
| "server_step s (net, WsClose w) = ws_close w s"

definition serve :: "(network \<times> server_event) list \<Rightarrow> server \<Rightarrow> server" where
  "serve evs s = foldl server_step s evs"

section \<open>Client: reducer (frontend.tsx)\<close>

record ChatState =
  messages :: "ChatMessage list"

datatype ChatAction =
    History "ChatMessage list"
  | AddMessage ChatMessage
  | Edit DiscordEditedMessage
  | Delete DeletedMessage

text \<open>
  \<^verbatim>\<open>sort\<close> with the comparator \<^verbatim>\<open>a.timestamp - b.timestamp\<close> is a stable sort on
  the timestamp, as \<open>sort_key\<close> is; \<^verbatim>\<open>slice(-100)\<close> keeps the last 100 elements.
\<close>

fun chatReducer :: "ChatState \<Rightarrow> ChatAction \<Rightarrow> ChatState" where
  "chatReducer state (History payload) = \<lparr>messages = sort_key timestamp payload\<rparr>"
| "chatReducer state (AddMessage payload) =
     (let next = messages state @ [payload]
      in \<lparr>messages = drop (length next - 100) next\<rparr>)"
| "chatReducer state (Edit payload) =
     \<lparr>messages = map (\<lambda>m. if ident m = edit_ident payload
                            then m\<lparr>content := edit_content payload, edited := Some True\<rparr>
                            else m)
                     (messages state)\<rparr>"
| "chatReducer state (Delete payload) =
     \<lparr>messages = filter (\<lambda>m. \<not> (platform m = del_platform payload \<and> ident m = del_ident payload))
                        (messages state)\<rparr>"

text \<open>\<^verbatim>\<open>handleIncoming\<close> turns a wire message into the reducer's action.\<close>

fun handleIncoming :: "Message \<Rightarrow> ChatAction" where
  "handleIncoming (MsgHistory ms) = History ms"
| "handleIncoming (MsgChat m) = AddMessage m"
| "handleIncoming (MsgEdit e) = Edit e"
| "handleIncoming (MsgDelete d) = Delete d"

text \<open>
  A well-formed incoming event respects the capacity of the protocol: a history
  carries at most 100 messages. A statement is harmless when the event it fans out,
  if any, is well-formed.
\<close>

fun well_formed :: "Message \<Rightarrow> bool" where
  "well_formed (MsgHistory ms) = (length ms \<le> 100)"
| "well_formed (MsgChat m) = True"
| "well_formed (MsgEdit e) = True"
| "well_formed (MsgDelete d) = True"

fun stmt_ok :: "stmt \<Rightarrow> bool" where
  "stmt_ok (BroadcastMessage message) = well_formed message"
| "stmt_ok (AddToBuffer message) = True"
| "stmt_ok (EditInBuffer i c) = True"
| "stmt_ok (RemoveFromBuffer i) = True"

text \<open>The server state keeps to the capacity: the buffer and every frame sent so far.\<close>

definition within_capacity :: "server \<Rightarrow> bool" where
  "within_capacity s =
     (length (messageBuffer s) \<le> 100 \<and> list_all (\<lambda>(c, frame). well_formed frame) (outbox s))"

text \<open>The view after the frames a client receives, starting from the empty view.\<close>

definition view_after :: "Message list \<Rightarrow> ChatState" where
  "view_after frames = foldl (\<lambda>state frame. chatReducer state (handleIncoming frame))
                             \<lparr>messages = []\<rparr> frames"

definition reduceAll :: "ChatState \<Rightarrow> ChatAction list \<Rightarrow> ChatState" where
  "reduceAll state as = foldl chatReducer state as"

section \<open>Client: grouping (frontend.tsx)\<close>

definition GROUP_WINDOW_MS :: int where
  "GROUP_WINDOW_MS = 5 * 60 * 1000"

record MessageGroup =
  group_id :: string
  first :: ChatMessage
  group_messages :: "ChatMessage list"

definition new_group :: "ChatMessage \<Rightarrow> MessageGroup" where
  "new_group message = \<lparr>group_id = ident message, first = message, group_messages = [message]\<rparr>"

text \<open>
  One iteration of the \<^verbatim>\<open>for\<close> loop. The variable \<^verbatim>\<open>current\<close> is \<^verbatim>\<open>null\<close> until
  the first group is pushed and from then on is the very object pushed last onto
  \<^verbatim>\<open>groups\<close>, so it is \<open>last groups\<close>, and \<^verbatim>\<open>current.messages.push\<close> changes that
  last element in place. When \<^verbatim>\<open>last\<close> is \<^verbatim>\<open>undefined\<close> the iteration is skipped.
\<close>

definition group_step :: "MessageGroup list \<Rightarrow> ChatMessage \<Rightarrow> MessageGroup list" where
  "group_step groups message =
     (if groups = [] then [new_group message]
      else
        let current = last groups in
        if group_messages current = [] then groups
        else
          let lastm = last (group_messages current);
              sameAuthor = (platform message = platform lastm \<and>
                            name (author message) = name (author lastm));
              withinWindow = (\<bar>timestamp (first current) - timestamp message\<bar> \<le> GROUP_WINDOW_MS)
          in if sameAuthor \<and> withinWindow
             then butlast groups @
                    [current\<lparr>group_messages := group_messages current @ [message]\<rparr>]
             else groups @ [new_group message])"

definition groupMessages :: "ChatMessage list \<Rightarrow> MessageGroup list" where
  "groupMessages ms = foldl group_step [] ms"

text \<open>
  The grouping rule in the words of the specification, to compare with the code: a
  message starts a new group unless the current group is non-empty and the message's
  platform and author name match the current group's first message and its timestamp
  is within five minutes of that first message's timestamp.
\<close>

definition spec_group_step :: "MessageGroup list \<Rightarrow> ChatMessage \<Rightarrow> MessageGroup list" where
  "spec_group_step groups message =
     (if groups \<noteq> [] \<and> group_messages (last groups) \<noteq> [] \<and>
         platform message = platform (hd (group_messages (last groups))) \<and>
         name (author message) = name (author (hd (group_messages (last groups)))) \<and>
         \<bar>timestamp message - timestamp (hd (group_messages (last groups)))\<bar> \<le> 300000
      then butlast groups @
             [(last groups)\<lparr>group_messages := group_messages (last groups) @ [message]\<rparr>]
      else groups @ [new_group message])"

definition spec_groupMessages :: "ChatMessage list \<Rightarrow> MessageGroup list" where
  "spec_groupMessages ms = foldl spec_group_step [] ms"

text \<open>
  What holds of every group the loop builds: its member list is not empty and starts
  with the recorded first message, and every member has the platform and the author
  name of that first message.
\<close>

definition group_ok :: "MessageGroup \<Rightarrow> bool" where
  "group_ok g =
     (group_messages g \<noteq> [] \<and> hd (group_messages g) = first g \<and>
      list_all (\<lambda>m. platform m = platform (first g) \<and>
                     name (author m) = name (author (first g)))
               (group_messages g))"

section \<open>Client: connection manager (frontend.tsx, useChatSocket)\<close>

text \<open>
  The state of the hook: the three React state cells, the ref \<^verbatim>\<open>retryRef\<close>, the
  effect's \<^verbatim>\<open>cancelled\<close> flag, whether the ping interval is set, and the delay of the
  pending \<^verbatim>\<open>setTimeout(connect, \<dots>)\<close>, if any. Delays are real numbers of
  milliseconds; \<^verbatim>\<open>Math.random()\<close> and the elapsed time measured with
  \<^verbatim>\<open>performance.now()\<close> are inputs of the handlers.
\<close>

datatype ConnectionState = connecting | connected | disconnected

record hook =
  connectionState :: ConnectionState
  latencyMs :: "int option"
  retryCount :: nat
  retryRef :: nat
  cancelled :: bool
  pingInterval :: bool
  reconnectTimer :: "real option"

definition initial_hook :: hook where
  "initial_hook =
     \<lparr>connectionState = connecting, latencyMs = None, retryCount = 0, retryRef = 0,
      cancelled = False, pingInterval = False, reconnectTimer = None\<rparr>"

definition Math_round :: "real \<Rightarrow> int" where
  "Math_round x = \<lfloor>x + 1 / 2\<rfloor>"

definition connect :: "hook \<Rightarrow> hook" where
  "connect h =
     (if cancelled h then h
      else h\<lparr>pingInterval := False, connectionState := connecting, reconnectTimer := None\<rparr>)"

definition onopen :: "real \<Rightarrow> hook \<Rightarrow> hook" where
  "onopen elapsed h =
     (if cancelled h then h
      else h\<lparr>connectionState := connected, retryCount := 0,
             latencyMs := Some (Math_round elapsed), pingInterval := True\<rparr>)"

definition baseDelay :: "nat \<Rightarrow> real" where
  "baseDelay n = min 5000 (500 * real n)"

definition jitter :: "real \<Rightarrow> real" where
  "jitter random = random * 400"

definition onclose :: "real \<Rightarrow> hook \<Rightarrow> hook" where
  "onclose random h =
     (if cancelled h then h
      else
        let r = retryRef h + 1
        in h\<lparr>pingInterval := False, connectionState := disconnected, retryRef := r,
              retryCount := r, reconnectTimer := Some (baseDelay r + jitter random)\<rparr>)"

definition teardown :: "hook \<Rightarrow> hook" where
  "teardown h = h\<lparr>cancelled := True, pingInterval := False\<rparr>"

text \<open>The events of one hook instance, and a run of them from a state.\<close>

datatype socket_event = Open real | Close real | TimerFired | Unmount

fun hook_step :: "hook \<Rightarrow> socket_event \<Rightarrow> hook" where
  "hook_step h (Open elapsed) = onopen elapsed h"
| "hook_step h (Close random) = onclose random h"
| "hook_step h TimerFired = connect h"
| "hook_step h Unmount = teardown h"

definition hook_run :: "hook \<Rightarrow> socket_event list \<Rightarrow> hook" where
  "hook_run h evs = foldl hook_step h evs"

section \<open>Sample data\<close>

text \<open>A message with the given platform, id, timestamp, author name and content.\<close>

definition chat :: "platform \<Rightarrow> string \<Rightarrow> int \<Rightarrow> string \<Rightarrow> string \<Rightarrow> ChatMessage" where
  "chat p i t a c =
     \<lparr>platform = p, ident = i, timestamp = t, author = \<lparr>name = a, avatar = []\<rparr>,
      content = c, attachments = None, edited = None\<rparr>"

text \<open>
  Transports: one that takes every payload, one that drops what is sent to socket 2,
  one whose \<^verbatim>\<open>send\<close> throws for socket 2.
\<close>

definition net_ok :: network where
  "net_ok w = Sent"

definition net_drop2 :: network where
  "net_drop2 w = (if w = 2 then Dropped else Sent)"

definition net_throw2 :: network where
  "net_throw2 w = (if w = 2 then Threw else Sent)"

text \<open>A Discord event in the watched channel for the message \<open>i\<close> with content \<open>c\<close>.\<close>

definition discord_event :: "string \<Rightarrow> string \<Rightarrow> DiscordEvent" where
  "discord_event i c =
     \<lparr>inGuild = True, channelId = DISCORD_CHANNEL_ID, message_id = i, createdTimestamp = 0,
      editedTimestamp = 1, displayName = ''bob'', displayAvatarURL = [],
      message_content = c, attachment_urls = []\<rparr>"

definition server0 :: server where
  "server0 = \<lparr>clients = [], messageBuffer = [], outbox = []\<rparr>"

section \<open>The buffer bound\<close>

lemma addToBuffer_buffer:
  "messageBuffer (addToBuffer m s) =
     drop (length (messageBuffer s @ [m]) - 100) (messageBuffer s @ [m])"
  by (simp add: addToBuffer_def MAX_BUFFER_SIZE_def Let_def)

lemma appendAll_snoc: "appendAll (ms @ [m]) s = addToBuffer m (appendAll ms s)"
  by (simp add: appendAll_def)

lemma keep_last_snoc:
  "drop (length (drop (length xs - n) xs @ [m]) - n) (drop (length xs - n) xs @ [m]) =
   drop (length (xs @ [m]) - n) (xs @ [m])"
proof (cases "length xs < n")
  case True
  then show ?thesis by simp
next
  case False
  then have len: "length (drop (length xs - n) xs) = n" by simp
  have "drop (length (drop (length xs - n) xs @ [m]) - n) (drop (length xs - n) xs @ [m])
        = drop 1 (drop (length xs - n) xs @ [m])"
    using len by simp
  also have "\<dots> = drop (Suc (length xs) - n) (xs @ [m])"
    using False by (cases "n = 0") (auto simp: Suc_diff_le)
  finally show ?thesis by simp
qed

lemma appendAll_buffer:
  "ms \<noteq> [] \<or> length (messageBuffer s) \<le> 100 \<Longrightarrow>
   messageBuffer (appendAll ms s) =
     drop (length (messageBuffer s @ ms) - 100) (messageBuffer s @ ms)"
proof (induction ms rule: rev_induct)
  case Nil
  then show ?case by (simp add: appendAll_def)
next
  case (snoc m ms)
  let ?all = "messageBuffer s @ ms"
  show ?case
  proof (cases "ms = []")
    case True
    then show ?thesis
      by (simp add: appendAll_def addToBuffer_buffer)
  next
    case False
    then have kept: "messageBuffer (appendAll ms s) = drop (length ?all - 100) ?all"
      using snoc.IH by simp
    have "messageBuffer (appendAll (ms @ [m]) s) =
            drop (length (drop (length ?all - 100) ?all @ [m]) - 100)
                 (drop (length ?all - 100) ?all @ [m])"
      by (simp only: appendAll_snoc addToBuffer_buffer kept)
    also have "\<dots> = drop (length (?all @ [m]) - 100) (?all @ [m])"
      by (rule keep_last_snoc)
    finally show ?thesis by simp
  qed
qed

text \<open>
  C1. After \<open>N > 100\<close> appends, whatever the buffer held before, the buffer has
  length exactly 100 and is the last 100 appended messages in arrival order; after
  \<open>N \<le> 100\<close> appends to the empty buffer it is all \<open>N\<close> messages in arrival order.
\<close>

theorem C1_buffer_bound:
  shows "(length ms > 100 \<longrightarrow>
            length (messageBuffer (appendAll ms s)) = 100 \<and>
            messageBuffer (appendAll ms s) = drop (length ms - 100) ms) \<and>
         (length ms \<le> 100 \<and> messageBuffer s = [] \<longrightarrow>
            messageBuffer (appendAll ms s) = ms)"
proof (intro conjI impI)
  assume big: "length ms > 100"
  then have "ms \<noteq> []" by auto
  then have eq: "messageBuffer (appendAll ms s) =
      drop (length (messageBuffer s @ ms) - 100) (messageBuffer s @ ms)"
    by (simp add: appendAll_buffer)
  from big show "messageBuffer (appendAll ms s) = drop (length ms - 100) ms"
    unfolding eq by simp
  with big show "length (messageBuffer (appendAll ms s)) = 100" by simp
next
  assume "length ms \<le> 100 \<and> messageBuffer s = []"
  then show "messageBuffer (appendAll ms s) = ms"
    by (simp add: appendAll_buffer)
qed

theorem C1_buffer_bound_witness:
  "length (map (\<lambda>t. chat discord [] (int t) [] []) [0..<101]) > 100 \<and>
   length (messageBuffer (appendAll (map (\<lambda>t. chat discord [] (int t) [] []) [0..<101]) server0)) = 100 \<and>
   messageBuffer (appendAll (map (\<lambda>t. chat discord [] (int t) [] []) [0..<101]) server0)
     = map (\<lambda>t. chat discord [] (int t) [] []) [1..<101] \<and>
   length [chat discord ''a'' 0 ''bob'' ''hi'', chat youtube ''b'' 1 ''eve'' ''yo''] \<le> 100 \<and>
   messageBuffer server0 = [] \<and>
   messageBuffer (appendAll [chat discord ''a'' 0 ''bob'' ''hi'', chat youtube ''b'' 1 ''eve'' ''yo''] server0)
     = [chat discord ''a'' 0 ''bob'' ''hi'', chat youtube ''b'' 1 ''eve'' ''yo'']"
  using C1_buffer_bound [of "map (\<lambda>t. chat discord [] (int t) [] []) [0..<101]" server0]
        C1_buffer_bound [of "[chat discord ''a'' 0 ''bob'' ''hi'', chat youtube ''b'' 1 ''eve'' ''yo'']" server0]
  by (simp add: server0_def drop_map)

section \<open>Editing and removing in the buffer\<close>

text \<open>
  C2 (as the code has it). The server edits and removes by id alone:
  \<^verbatim>\<open>editInBuffer\<close> replaces the content and sets the edited flag of every entry
  whose id matches, whatever its platform, and leaves every other entry as it is;
  \<^verbatim>\<open>removeFromBuffer\<close> deletes every entry whose id matches and keeps the others in
  order; when no entry has the id, both leave the state unchanged.
\<close>

theorem C2_edit_remove_by_id:
  "length (messageBuffer (editInBuffer i c s)) = length (messageBuffer s) \<and>
   (\<forall>k < length (messageBuffer s).
      messageBuffer (editInBuffer i c s) ! k =
        (if ident (messageBuffer s ! k) = i
         then (messageBuffer s ! k)\<lparr>content := c, edited := Some True\<rparr>
         else messageBuffer s ! k)) \<and>
   messageBuffer (removeFromBuffer i s) = filter (\<lambda>m. ident m \<noteq> i) (messageBuffer s) \<and>
   (\<forall>m \<in> set (messageBuffer (removeFromBuffer i s)). ident m \<noteq> i) \<and>
   ((\<forall>m \<in> set (messageBuffer s). ident m \<noteq> i) \<longrightarrow>
      editInBuffer i c s = s \<and> removeFromBuffer i s = s)"
proof (intro conjI allI impI ballI)
  show "length (messageBuffer (editInBuffer i c s)) = length (messageBuffer s)"
    by (simp add: editInBuffer_def)
next
  fix k assume "k < length (messageBuffer s)"
  then show "messageBuffer (editInBuffer i c s) ! k =
        (if ident (messageBuffer s ! k) = i
         then (messageBuffer s ! k)\<lparr>content := c, edited := Some True\<rparr>
         else messageBuffer s ! k)"
    by (simp add: editInBuffer_def)
next
  show "messageBuffer (removeFromBuffer i s) = filter (\<lambda>m. ident m \<noteq> i) (messageBuffer s)"
    by (simp add: removeFromBuffer_def)
next
  fix m assume "m \<in> set (messageBuffer (removeFromBuffer i s))"
  then show "ident m \<noteq> i" by (simp add: removeFromBuffer_def)
next
  assume none: "\<forall>m \<in> set (messageBuffer s). ident m \<noteq> i"
  then have "map (\<lambda>message. if ident message = i
                         then message\<lparr>content := c, edited := Some True\<rparr>
                         else message) (messageBuffer s) = messageBuffer s"
    by (simp add: map_idI)
  then show "editInBuffer i c s = s" by (simp add: editInBuffer_def)
next
  assume none: "\<forall>m \<in> set (messageBuffer s). ident m \<noteq> i"
  then have "filter (\<lambda>m. ident m \<noteq> i) (messageBuffer s) = messageBuffer s"
    by simp
  then show "removeFromBuffer i s = s" by (simp add: removeFromBuffer_def)
qed

theorem C2_edit_remove_by_id_witness:
  "(0::nat) < length (messageBuffer
      (server0\<lparr>messageBuffer := [chat discord ''1'' 0 ''bob'' ''hi'', chat youtube ''2'' 1 ''eve'' ''yo'']\<rparr>)) \<and>
   messageBuffer (editInBuffer ''1'' ''new''
      (server0\<lparr>messageBuffer := [chat discord ''1'' 0 ''bob'' ''hi'', chat youtube ''2'' 1 ''eve'' ''yo'']\<rparr>)) ! 0
     = chat discord ''1'' 0 ''bob'' ''new''\<lparr>edited := Some True\<rparr> \<and>
   messageBuffer (removeFromBuffer ''1''
      (server0\<lparr>messageBuffer := [chat discord ''1'' 0 ''bob'' ''hi'', chat youtube ''2'' 1 ''eve'' ''yo'']\<rparr>))
     = [chat youtube ''2'' 1 ''eve'' ''yo''] \<and>
   ident (chat discord ''1'' 0 ''bob'' ''hi'') \<noteq> ''3'' \<and>
   ident (chat youtube ''2'' 1 ''eve'' ''yo'') \<noteq> ''3'' \<and>
   editInBuffer ''3'' ''new''
      (server0\<lparr>messageBuffer := [chat discord ''1'' 0 ''bob'' ''hi'', chat youtube ''2'' 1 ''eve'' ''yo'']\<rparr>)
     = server0\<lparr>messageBuffer := [chat discord ''1'' 0 ''bob'' ''hi'', chat youtube ''2'' 1 ''eve'' ''yo'']\<rparr> \<and>
   removeFromBuffer ''3''
      (server0\<lparr>messageBuffer := [chat discord ''1'' 0 ''bob'' ''hi'', chat youtube ''2'' 1 ''eve'' ''yo'']\<rparr>)
     = server0\<lparr>messageBuffer := [chat discord ''1'' 0 ''bob'' ''hi'', chat youtube ''2'' 1 ''eve'' ''yo'']\<rparr>"
proof -
  let ?a = "chat discord ''1'' 0 ''bob'' ''hi''"
  let ?b = "chat youtube ''2'' 1 ''eve'' ''yo''"
  let ?s = "server0\<lparr>messageBuffer := [?a, ?b]\<rparr>"
  note hit = C2_edit_remove_by_id [of "''1''" "''new''" ?s]
  note miss = C2_edit_remove_by_id [of "''3''" "''new''" ?s]
  have pos: "(0::nat) < length (messageBuffer ?s)" by simp
  have ids: "ident ?a \<noteq> ''3''" "ident ?b \<noteq> ''3''" by (simp_all add: chat_def)
  then have none: "\<forall>m \<in> set (messageBuffer ?s). ident m \<noteq> ''3''" by simp
  from hit pos have "messageBuffer (editInBuffer ''1'' ''new'' ?s) ! 0 =
        (if ident (messageBuffer ?s ! 0) = ''1''
         then (messageBuffer ?s ! 0)\<lparr>content := ''new'', edited := Some True\<rparr>
         else messageBuffer ?s ! 0)"
    by blast
  then have edited: "messageBuffer (editInBuffer ''1'' ''new'' ?s) ! 0 =
      chat discord ''1'' 0 ''bob'' ''new''\<lparr>edited := Some True\<rparr>"
    by (simp add: chat_def)
  from hit have "messageBuffer (removeFromBuffer ''1'' ?s) =
      filter (\<lambda>m. ident m \<noteq> ''1'') (messageBuffer ?s)"
    by blast
  then have removed: "messageBuffer (removeFromBuffer ''1'' ?s) = [?b]"
    by (simp add: chat_def)
  from miss none have same: "editInBuffer ''3'' ''new'' ?s = ?s \<and> removeFromBuffer ''3'' ?s = ?s"
    by blast
  from pos edited removed ids same show ?thesis by blast
qed

text \<open>
  C2 as stated fails: a Discord delete, and a Discord edit, of id \<open>1\<close> hit the YouTube
  message with id \<open>1\<close>, which the claim says is left untouched.
\<close>

theorem C2_counterexample:
  "run net_ok (messageDelete (discord_event ''1'' ''new''))
       (server0\<lparr>messageBuffer := [chat youtube ''1'' 0 ''eve'' ''hi'']\<rparr>)
     = Returned (server0\<lparr>messageBuffer := []\<rparr>) \<and>
   run net_ok (messageUpdate (discord_event ''1'' ''new'')
                 (server0\<lparr>messageBuffer := [chat youtube ''1'' 0 ''eve'' ''hi'']\<rparr>))
       (server0\<lparr>messageBuffer := [chat youtube ''1'' 0 ''eve'' ''hi'']\<rparr>)
     = Returned (server0\<lparr>messageBuffer := [chat youtube ''1'' 0 ''eve'' ''new''\<lparr>edited := Some True\<rparr>]\<rparr>)"
  by (simp add: messageDelete_def messageUpdate_def discord_event_def server0_def chat_def
      broadcastMessage_def removeFromBuffer_def editInBuffer_def)

section \<open>Publishing and joining\<close>

lemma send_keeps:
  "send net c p s = Returned s' \<or> send net c p s = Raised s' \<Longrightarrow>
   clients s' = clients s \<and> messageBuffer s' = messageBuffer s"
  by (auto simp: send_def split: send_result.splits)

lemma forEach_send_keeps:
  "forEach_send net p cs s = Returned s' \<or> forEach_send net p cs s = Raised s' \<Longrightarrow>
   clients s' = clients s \<and> messageBuffer s' = messageBuffer s"
proof (induction cs arbitrary: s)
  case Nil
  then show ?case by auto
next
  case (Cons c cs)
  show ?case
  proof (cases "send net c p s")
    case (Returned t)
    with Cons.prems have "forEach_send net p cs t = Returned s' \<or> forEach_send net p cs t = Raised s'"
      by simp
    then have "clients s' = clients t \<and> messageBuffer s' = messageBuffer t"
      by (rule Cons.IH)
    moreover have "clients t = clients s \<and> messageBuffer t = messageBuffer s"
      using Returned send_keeps by blast
    ultimately show ?thesis by simp
  next
    case (Raised t)
    with Cons.prems have "s' = t" by simp
    then show ?thesis using Raised send_keeps by blast
  qed
qed

lemma forEach_send_nothrow:
  "\<forall>c\<in>set cs. net c \<noteq> Threw \<Longrightarrow>
   forEach_send net p cs s = Returned (s\<lparr>outbox := outbox s @ delivered net p cs\<rparr>)"
proof (induction cs arbitrary: s)
  case Nil
  then show ?case by (simp add: delivered_def)
next
  case (Cons c cs)
  then have c: "net c \<noteq> Threw" and rest: "\<forall>c\<in>set cs. net c \<noteq> Threw" by auto
  show ?case
  proof (cases "net c")
    case Sent
    then show ?thesis using Cons.IH [OF rest] by (simp add: send_def delivered_def)
  next
    case Dropped
    then show ?thesis using Cons.IH [OF rest] by (simp add: send_def delivered_def)
  next
    case Threw
    with c show ?thesis by simp
  qed
qed

lemma broadcastMessage_nothrow:
  "\<forall>c\<in>set (clients s). net c \<noteq> Threw \<Longrightarrow>
   broadcastMessage net p s = Returned (s\<lparr>outbox := outbox s @ delivered net p (clients s)\<rparr>)"
  by (simp add: broadcastMessage_def forEach_send_nothrow)

lemma ws_open_sent:
  "net' w = Sent \<Longrightarrow>
   ws_open net' w s =
     Returned (s\<lparr>clients := (if w \<in> set (clients s) then clients s else clients s @ [w]),
                 outbox := outbox s @ (if messageBuffer s = [] then [] else [(w, MsgHistory (messageBuffer s))])\<rparr>)"
  by (simp add: ws_open_def send_def Let_def)

lemma joins_after_broadcast_then_edit:
  assumes "\<forall>c\<in>set (clients s). net c \<noteq> Threw" and "net' w = Sent"
  shows "joins_after net [BroadcastMessage p, EditInBuffer i c] s net' w (messageBuffer (editInBuffer i c s))"
  using assms
  by (simp add: joins_after_def broadcastMessage_nothrow ws_open_sent editInBuffer_def)

lemma joins_after_broadcast_then_remove:
  assumes "\<forall>c\<in>set (clients s). net c \<noteq> Threw" and "net' w = Sent"
  shows "joins_after net [BroadcastMessage p, RemoveFromBuffer i] s net' w (messageBuffer (removeFromBuffer i s))"
  using assms
  by (simp add: joins_after_def broadcastMessage_nothrow ws_open_sent removeFromBuffer_def)

lemma broadcastMessage_keeps:
  "clients (state_of (broadcastMessage net p s)) = clients s \<and>
   messageBuffer (state_of (broadcastMessage net p s)) = messageBuffer s"
proof (cases "broadcastMessage net p s")
  case (Returned t)
  then have "forEach_send net p (clients s) s = Returned t"
    by (simp add: broadcastMessage_def)
  then have "clients t = clients s \<and> messageBuffer t = messageBuffer s"
    using forEach_send_keeps by blast
  with Returned show ?thesis by simp
next
  case (Raised t)
  then have "forEach_send net p (clients s) s = Raised t"
    by (simp add: broadcastMessage_def)
  then have "clients t = clients s \<and> messageBuffer t = messageBuffer s"
    using forEach_send_keeps by blast
  with Raised show ?thesis by simp
qed

lemma run_broadcastChatMessage:
  "state_of (run net (broadcastChatMessage m) s) =
   state_of (broadcastMessage net (MsgChat m) (addToBuffer m s))"
  by (cases "broadcastMessage net (MsgChat m) (addToBuffer m s)")
     (simp_all add: broadcastChatMessage_def)

lemma history_for_sent:
  "net' w = Sent \<Longrightarrow> history_for net' w s (messageBuffer s)"
  by (simp add: history_for_def ws_open_sent)

text \<open>
  C3 (as the code has it). \<^verbatim>\<open>broadcastChatMessage\<close> appends to the buffer before it
  fans the message out: whatever \<^verbatim>\<open>send\<close> does, the buffer holds the message when
  the fan-out starts and when the handler is left, and a socket that connects
  afterwards is sent it in its history. The update and delete handlers (Discord's
  and YouTube's) fan the event out first, with the buffer still unchanged, and change
  the buffer right after, in the same handler; when no \<^verbatim>\<open>send\<close> throws, the handler
  returns with the event's effect in the buffer, and a socket that connects
  afterwards is sent that buffer as its history.
\<close>

theorem C3_publish_then_join:
  assumes join: "net' w = Sent"
  shows "buffer_at_broadcast net (broadcastChatMessage m) s = Some (messageBuffer (addToBuffer m s)) \<and>
         messageBuffer (state_of (run net (broadcastChatMessage m) s))
           = messageBuffer (addToBuffer m s) \<and>
         history_for net' w (state_of (run net (broadcastChatMessage m) s))
           (messageBuffer (addToBuffer m s)) \<and>
         (messageUpdate ev s \<noteq> [] \<longrightarrow>
            buffer_at_broadcast net (messageUpdate ev s) s = Some (messageBuffer s) \<and>
            ((\<forall>c\<in>set (clients s). net c \<noteq> Threw) \<longrightarrow>
               joins_after net (messageUpdate ev s) s net' w
                 (messageBuffer (editInBuffer (message_id ev) (message_content ev) s)))) \<and>
         (messageDelete ev \<noteq> [] \<longrightarrow>
            buffer_at_broadcast net (messageDelete ev) s = Some (messageBuffer s) \<and>
            ((\<forall>c\<in>set (clients s). net c \<noteq> Threw) \<longrightarrow>
               joins_after net (messageDelete ev) s net' w
                 (messageBuffer (removeFromBuffer (message_id ev) s)))) \<and>
         buffer_at_broadcast net (action_body (MarkChatItemAsDeletedAction targetId)) s
           = Some (messageBuffer s) \<and>
         ((\<forall>c\<in>set (clients s). net c \<noteq> Threw) \<longrightarrow>
            joins_after net (action_body (MarkChatItemAsDeletedAction targetId)) s net' w
              (messageBuffer (removeFromBuffer targetId s)))"
proof (intro conjI impI)
  show "buffer_at_broadcast net (broadcastChatMessage m) s = Some (messageBuffer (addToBuffer m s))"
    by (simp add: broadcastChatMessage_def)
  show buf: "messageBuffer (state_of (run net (broadcastChatMessage m) s))
           = messageBuffer (addToBuffer m s)"
    by (simp add: run_broadcastChatMessage broadcastMessage_keeps)
  have "history_for net' w (state_of (run net (broadcastChatMessage m) s))
           (messageBuffer (state_of (run net (broadcastChatMessage m) s)))"
    using join by (rule history_for_sent)
  then show "history_for net' w (state_of (run net (broadcastChatMessage m) s))
           (messageBuffer (addToBuffer m s))"
    by (simp only: buf)
next
  assume ne: "messageUpdate ev s \<noteq> []"
  then have body: "messageUpdate ev s =
      [BroadcastMessage (MsgEdit \<lparr>edit_ident = message_id ev, edit_timestamp = editedTimestamp ev,
                                   edit_content = message_content ev\<rparr>),
       EditInBuffer (message_id ev) (message_content ev)]"
    by (simp add: messageUpdate_def split: if_splits)
  show "buffer_at_broadcast net (messageUpdate ev s) s = Some (messageBuffer s)"
    by (simp add: body)
  assume nothrow: "\<forall>c\<in>set (clients s). net c \<noteq> Threw"
  show "joins_after net (messageUpdate ev s) s net' w
              (messageBuffer (editInBuffer (message_id ev) (message_content ev) s))"
    unfolding body using nothrow join by (rule joins_after_broadcast_then_edit)
next
  assume ne: "messageDelete ev \<noteq> []"
  then have body: "messageDelete ev =
      [BroadcastMessage (MsgDelete \<lparr>del_platform = discord, del_ident = message_id ev\<rparr>),
       RemoveFromBuffer (message_id ev)]"
    by (simp add: messageDelete_def split: if_splits)
  show "buffer_at_broadcast net (messageDelete ev) s = Some (messageBuffer s)"
    by (simp add: body)
  assume nothrow: "\<forall>c\<in>set (clients s). net c \<noteq> Threw"
  show "joins_after net (messageDelete ev) s net' w
              (messageBuffer (removeFromBuffer (message_id ev) s))"
    unfolding body using nothrow join by (rule joins_after_broadcast_then_remove)
next
  show "buffer_at_broadcast net (action_body (MarkChatItemAsDeletedAction targetId)) s
           = Some (messageBuffer s)"
    by simp
  assume nothrow: "\<forall>c\<in>set (clients s). net c \<noteq> Threw"
  show "joins_after net (action_body (MarkChatItemAsDeletedAction targetId)) s net' w
           (messageBuffer (removeFromBuffer targetId s))"
    unfolding action_body.simps using nothrow join by (rule joins_after_broadcast_then_remove)
qed

theorem C3_publish_then_join_witness:
  "net_ok 9 = Sent \<and> net_throw2 9 = Sent \<and> net_ok 7 \<noteq> Threw \<and>
   messageUpdate (discord_event ''1'' ''new'')
     (server0\<lparr>clients := [7], messageBuffer := [chat discord ''1'' 0 ''bob'' ''old'']\<rparr>) \<noteq> [] \<and>
   messageDelete (discord_event ''1'' ''new'') \<noteq> [] \<and>
   messageBuffer (state_of (run net_throw2 (broadcastChatMessage (chat youtube ''2'' 5 ''eve'' ''yo''))
     (server0\<lparr>clients := [2], messageBuffer := [chat discord ''1'' 0 ''bob'' ''old'']\<rparr>)))
     = [chat discord ''1'' 0 ''bob'' ''old'', chat youtube ''2'' 5 ''eve'' ''yo''] \<and>
   history_for net_throw2 9
     (state_of (run net_throw2 (broadcastChatMessage (chat youtube ''2'' 5 ''eve'' ''yo''))
        (server0\<lparr>clients := [2], messageBuffer := [chat discord ''1'' 0 ''bob'' ''old'']\<rparr>)))
     [chat discord ''1'' 0 ''bob'' ''old'', chat youtube ''2'' 5 ''eve'' ''yo''] \<and>
   joins_after net_ok
     (messageUpdate (discord_event ''1'' ''new'')
        (server0\<lparr>clients := [7], messageBuffer := [chat discord ''1'' 0 ''bob'' ''old'']\<rparr>))
     (server0\<lparr>clients := [7], messageBuffer := [chat discord ''1'' 0 ''bob'' ''old'']\<rparr>) net_ok 9
     [chat discord ''1'' 0 ''bob'' ''new''\<lparr>edited := Some True\<rparr>] \<and>
   joins_after net_ok (messageDelete (discord_event ''1'' ''new''))
     (server0\<lparr>clients := [7], messageBuffer := [chat discord ''1'' 0 ''bob'' ''old'']\<rparr>) net_ok 9
     []"
  using C3_publish_then_join
    [where s = "server0\<lparr>clients := [7], messageBuffer := [chat discord ''1'' 0 ''bob'' ''old'']\<rparr>"
       and net = net_ok and net' = net_ok and w = 9 and m = "chat youtube ''2'' 5 ''eve'' ''yo''"
       and ev = "discord_event ''1'' ''new''" and targetId = "''1''"]
    C3_publish_then_join
    [where s = "server0\<lparr>clients := [2], messageBuffer := [chat discord ''1'' 0 ''bob'' ''old'']\<rparr>"
       and net = net_throw2 and net' = net_throw2 and w = 9 and m = "chat youtube ''2'' 5 ''eve'' ''yo''"
       and ev = "discord_event ''1'' ''new''" and targetId = "''1''"]
  by (simp add: net_ok_def net_throw2_def messageUpdate_def messageDelete_def discord_event_def
      server0_def chat_def editInBuffer_def removeFromBuffer_def addToBuffer_def MAX_BUFFER_SIZE_def)

text \<open>
  C3 as stated fails for an edit: when the update handler reaches its fan-out the
  buffer still holds the old content, not the edited one.
\<close>

theorem C3_counterexample:
  "buffer_at_broadcast net_ok
     (messageUpdate (discord_event ''1'' ''new'')
        (server0\<lparr>clients := [7], messageBuffer := [chat discord ''1'' 0 ''bob'' ''old'']\<rparr>))
     (server0\<lparr>clients := [7], messageBuffer := [chat discord ''1'' 0 ''bob'' ''old'']\<rparr>)
     = Some [chat discord ''1'' 0 ''bob'' ''old''] \<and>
   messageBuffer (editInBuffer ''1'' ''new''
     (server0\<lparr>clients := [7], messageBuffer := [chat discord ''1'' 0 ''bob'' ''old'']\<rparr>))
     = [chat discord ''1'' 0 ''bob'' ''new''\<lparr>edited := Some True\<rparr>] \<and>
   [chat discord ''1'' 0 ''bob'' ''old''] \<noteq> [chat discord ''1'' 0 ''bob'' ''new''\<lparr>edited := Some True\<rparr>]"
  by (simp add: messageUpdate_def discord_event_def server0_def chat_def editInBuffer_def)

section \<open>Fan-out and membership\<close>

text \<open>
  C4 (as the code has it). \<^verbatim>\<open>broadcastMessage\<close> never changes the membership set,
  whether it returns or is left by an exception; when no \<^verbatim>\<open>send\<close> throws, a
  socket whose payload is dropped does not keep the event from the others: exactly
  the sockets whose transport takes the payload receive it, in iteration order. A
  socket leaves the set only through the \<^verbatim>\<open>close\<close> handler.
\<close>

theorem C4_fanout_membership:
  "(case broadcastMessage net message s of
      Returned s' \<Rightarrow> clients s' = clients s
    | Raised s' \<Rightarrow> clients s' = clients s) \<and>
   ((\<forall>c\<in>set (clients s). net c \<noteq> Threw) \<longrightarrow>
      broadcastMessage net message s =
        Returned (s\<lparr>outbox := outbox s @ delivered net message (clients s)\<rparr>)) \<and>
   set (clients (ws_close w s)) = set (clients s) - {w}"
proof (intro conjI impI)
  show "case broadcastMessage net message s of
      Returned s' \<Rightarrow> clients s' = clients s
    | Raised s' \<Rightarrow> clients s' = clients s"
  proof (cases "broadcastMessage net message s")
    case (Returned t)
    then have "forEach_send net message (clients s) s = Returned t"
      by (simp add: broadcastMessage_def)
    then have "clients t = clients s"
      using forEach_send_keeps by blast
    with Returned show ?thesis by simp
  next
    case (Raised t)
    then have "forEach_send net message (clients s) s = Raised t"
      by (simp add: broadcastMessage_def)
    then have "clients t = clients s"
      using forEach_send_keeps by blast
    with Raised show ?thesis by simp
  qed
next
  assume "\<forall>c\<in>set (clients s). net c \<noteq> Threw"
  then show "broadcastMessage net message s =
        Returned (s\<lparr>outbox := outbox s @ delivered net message (clients s)\<rparr>)"
    by (rule broadcastMessage_nothrow)
next
  show "set (clients (ws_close w s)) = set (clients s) - {w}"
    by (simp add: ws_close_def)
qed

theorem C4_fanout_membership_witness:
  "net_drop2 1 \<noteq> Threw \<and> net_drop2 2 \<noteq> Threw \<and> net_drop2 3 \<noteq> Threw \<and>
   broadcastMessage net_drop2 (MsgChat (chat discord ''a'' 0 ''bob'' ''hi''))
       (server0\<lparr>clients := [1, 2, 3]\<rparr>)
     = Returned (server0\<lparr>clients := [1, 2, 3],
                  outbox := [(1, MsgChat (chat discord ''a'' 0 ''bob'' ''hi'')),
                             (3, MsgChat (chat discord ''a'' 0 ''bob'' ''hi''))]\<rparr>) \<and>
   set (clients (ws_close 2 (server0\<lparr>clients := [1, 2, 3]\<rparr>))) = {1, 3}"
proof -
  let ?s = "server0\<lparr>clients := [1, 2, 3]\<rparr>"
  let ?m = "MsgChat (chat discord ''a'' 0 ''bob'' ''hi'')"
  note inst = C4_fanout_membership [where net = net_drop2 and message = ?m and s = ?s and w = 2]
  have nothrow: "net_drop2 1 \<noteq> Threw \<and> net_drop2 2 \<noteq> Threw \<and> net_drop2 3 \<noteq> Threw"
    by (simp add: net_drop2_def)
  then have hyp: "\<forall>c\<in>set (clients ?s). net_drop2 c \<noteq> Threw"
    by simp
  have d: "delivered net_drop2 ?m (clients ?s) = [(1, ?m), (3, ?m)]"
    by (simp add: delivered_def net_drop2_def)
  from inst hyp have "broadcastMessage net_drop2 ?m ?s =
      Returned (?s\<lparr>outbox := outbox ?s @ delivered net_drop2 ?m (clients ?s)\<rparr>)"
    by blast
  then have sent: "broadcastMessage net_drop2 ?m ?s =
      Returned (server0\<lparr>clients := [1, 2, 3], outbox := [(1, ?m), (3, ?m)]\<rparr>)"
    by (simp only: d) (simp add: server0_def)
  from inst have "set (clients (ws_close 2 ?s)) = set (clients ?s) - {2}"
    by blast
  then have left: "set (clients (ws_close 2 ?s)) = {1, 3}"
    by (simp add: insert_Diff_if)
  from nothrow sent left show ?thesis by blast
qed

text \<open>
  C4 as stated fails with three sockets of which socket 2 fails: when its payload is
  dropped the others are served but socket 2 is still a member afterwards, and when
  its \<^verbatim>\<open>send\<close> throws socket 3 is not served either.
\<close>

theorem C4_counterexample:
  "broadcastMessage net_drop2 (MsgChat (chat discord ''a'' 0 ''bob'' ''hi''))
       (server0\<lparr>clients := [1, 2, 3]\<rparr>)
     = Returned (server0\<lparr>clients := [1, 2, 3],
                  outbox := [(1, MsgChat (chat discord ''a'' 0 ''bob'' ''hi'')),
                             (3, MsgChat (chat discord ''a'' 0 ''bob'' ''hi''))]\<rparr>) \<and>
   broadcastMessage net_throw2 (MsgChat (chat discord ''a'' 0 ''bob'' ''hi''))
       (server0\<lparr>clients := [1, 2, 3]\<rparr>)
     = Raised (server0\<lparr>clients := [1, 2, 3],
                  outbox := [(1, MsgChat (chat discord ''a'' 0 ''bob'' ''hi''))]\<rparr>)"
  by (simp add: broadcastMessage_def send_def net_drop2_def net_throw2_def server0_def)

section \<open>Reconnecting\<close>

text \<open>
  C5, evaluated on the code: \<^verbatim>\<open>onopen\<close> resets the displayed \<^verbatim>\<open>retryCount\<close> to 0
  but not \<^verbatim>\<open>retryRef\<close>, from which \<^verbatim>\<open>onclose\<close> counts on. After one failed
  attempt and a successful connection the next close shows a retry count of 2 and
  waits for a base delay of 1000 ms, where the first close waited for 500 ms.
\<close>

theorem C5_retry_not_reset:
  "retryCount (hook_run initial_hook [Close 0, TimerFired, Open 10]) = 0 \<and>
   retryRef (hook_run initial_hook [Close 0, TimerFired, Open 10]) = 1 \<and>
   retryCount (hook_run initial_hook [Close 0, TimerFired, Open 10, Close 0]) = 2 \<and>
   reconnectTimer (hook_run initial_hook [Close 0]) = Some 500 \<and>
   reconnectTimer (hook_run initial_hook [Close 0, TimerFired, Open 10, Close 0]) = Some 1000"
  by (simp add: hook_run_def initial_hook_def onclose_def onopen_def connect_def
      baseDelay_def jitter_def Let_def)

lemma onclose_timer:
  "\<not> cancelled h \<Longrightarrow>
   reconnectTimer (onclose r h) = Some (min 5000 (500 * real (retryRef h + 1)) + 400 * r)"
  by (simp add: onclose_def baseDelay_def jitter_def Let_def)

lemma onclose_retryCount:
  "\<not> cancelled h \<Longrightarrow> retryCount (onclose r h) = retryRef h + 1"
  by (simp add: onclose_def Let_def)

lemma jitter_preimage:
  fixes a b B :: real
  assumes "0 \<le> a" and "b \<le> 400"
  shows "{r. 0 \<le> r \<and> r < 1 \<and> (\<exists>j. a \<le> j \<and> j < b \<and> B + 400 * r = B + j)} = {a / 400 ..< b / 400}"
proof -
  have "\<And>r::real. (\<exists>j. a \<le> j \<and> j < b \<and> B + 400 * r = B + j) \<longleftrightarrow> a \<le> 400 * r \<and> 400 * r < b"
    by auto
  moreover have "\<And>r::real. a \<le> 400 * r \<and> 400 * r < b \<longleftrightarrow> a / 400 \<le> r \<and> r < b / 400"
    by (auto simp: field_simps)
  moreover have "\<And>r::real. a / 400 \<le> r \<and> r < b / 400 \<Longrightarrow> 0 \<le> r \<and> r < 1"
    using assms by (auto simp: field_simps)
  ultimately show ?thesis by auto
qed

text \<open>
  C6. A close with the hook not torn down makes the retry count \<open>n = retryRef + 1\<close>,
  so \<open>n \<ge> 1\<close>, and schedules the reconnection after \<open>min 5000 (500 * n)\<close> plus a
  jitter that is 400 times the value drawn by \<^verbatim>\<open>Math.random()\<close>, hence in
  \<open>[0, 400)\<close>; the base delay is \<open>500 * n\<close> up to \<open>n = 10\<close> and 5000 from there
  on. The jitter takes every value of \<open>[0, 400)\<close>, and spreads the draw evenly: the
  draws that put the jitter in \<open>[a, b)\<close> are those of \<open>[a / 400, b / 400)\<close>, an
  interval whose length is the share \<open>(b - a) / 400\<close>, so a draw uniform on
  \<open>[0, 1)\<close> gives a jitter uniform on \<open>[0, 400)\<close>.
\<close>

theorem C6_backoff_delay:
  assumes "\<not> cancelled h" and "0 \<le> random" and "random < 1"
  shows "retryCount (onclose random h) = retryRef h + 1 \<and>
         reconnectTimer (onclose random h) =
           Some (min 5000 (500 * real (retryCount (onclose random h))) + 400 * random) \<and>
         0 \<le> 400 * random \<and> 400 * random < 400 \<and>
         (retryCount (onclose random h) \<le> 10 \<longrightarrow>
            baseDelay (retryCount (onclose random h)) = 500 * real (retryCount (onclose random h))) \<and>
         (10 \<le> retryCount (onclose random h) \<longrightarrow>
            baseDelay (retryCount (onclose random h)) = 5000) \<and>
         (\<forall>j. 0 \<le> j \<and> j < 400 \<longrightarrow>
            (\<exists>r. 0 \<le> r \<and> r < 1 \<and>
                 reconnectTimer (onclose r h) =
                   Some (min 5000 (500 * real (retryRef h + 1)) + j))) \<and>
         (\<forall>a b. 0 \<le> a \<and> b \<le> 400 \<longrightarrow>
            {r. 0 \<le> r \<and> r < 1 \<and>
                (\<exists>j. a \<le> j \<and> j < b \<and>
                     reconnectTimer (onclose r h) =
                       Some (min 5000 (500 * real (retryRef h + 1)) + j))}
              = {a / 400 ..< b / 400})"
proof (intro conjI allI impI)
  show n: "retryCount (onclose random h) = retryRef h + 1"
    using assms(1) by (rule onclose_retryCount)
  show "reconnectTimer (onclose random h) =
           Some (min 5000 (500 * real (retryCount (onclose random h))) + 400 * random)"
    unfolding n using assms(1) by (rule onclose_timer)
  show "0 \<le> 400 * random" using assms(2) by simp
  show "400 * random < 400" using assms(3) by simp
next
  assume "retryCount (onclose random h) \<le> 10"
  then show "baseDelay (retryCount (onclose random h)) = 500 * real (retryCount (onclose random h))"
    by (simp add: baseDelay_def min_def)
next
  assume "10 \<le> retryCount (onclose random h)"
  then show "baseDelay (retryCount (onclose random h)) = 5000"
    by (simp add: baseDelay_def min_def)
next
  fix j :: real
  assume j: "0 \<le> j \<and> j < 400"
  have "reconnectTimer (onclose (j / 400) h) =
          Some (min 5000 (500 * real (retryRef h + 1)) + 400 * (j / 400))"
    using assms(1) by (rule onclose_timer)
  then have "reconnectTimer (onclose (j / 400) h) =
          Some (min 5000 (500 * real (retryRef h + 1)) + j)"
    by simp
  moreover from j have "0 \<le> j / 400 \<and> j / 400 < 1" by simp
  ultimately show "\<exists>r. 0 \<le> r \<and> r < 1 \<and>
                 reconnectTimer (onclose r h) =
                   Some (min 5000 (500 * real (retryRef h + 1)) + j)"
    by blast
next
  fix a b :: real
  assume ab: "0 \<le> a \<and> b \<le> 400"
  have "{r. 0 \<le> r \<and> r < 1 \<and>
                (\<exists>j. a \<le> j \<and> j < b \<and>
                     reconnectTimer (onclose r h) =
                       Some (min 5000 (500 * real (retryRef h + 1)) + j))}
        = {r. 0 \<le> r \<and> r < 1 \<and>
                (\<exists>j. a \<le> j \<and> j < b \<and>
                     min 5000 (500 * real (retryRef h + 1)) + 400 * r =
                       min 5000 (500 * real (retryRef h + 1)) + j)}"
    by (simp only: onclose_timer [OF assms(1)] option.inject)
  also have "\<dots> = {a / 400 ..< b / 400}"
    using ab by (intro jitter_preimage) simp_all
  finally show "{r. 0 \<le> r \<and> r < 1 \<and>
                (\<exists>j. a \<le> j \<and> j < b \<and>
                     reconnectTimer (onclose r h) =
                       Some (min 5000 (500 * real (retryRef h + 1)) + j))}
              = {a / 400 ..< b / 400}" .
qed

theorem C6_backoff_delay_witness:
  "\<not> cancelled (initial_hook\<lparr>retryRef := 11\<rparr>) \<and> (0::real) \<le> 1 / 4 \<and> (1 / 4 :: real) < 1 \<and>
   retryCount (onclose (1 / 4) (initial_hook\<lparr>retryRef := 11\<rparr>)) = 12 \<and>
   reconnectTimer (onclose (1 / 4) (initial_hook\<lparr>retryRef := 11\<rparr>)) = Some 5100 \<and>
   retryCount (onclose (1 / 4) initial_hook) = 1 \<and>
   reconnectTimer (onclose (1 / 4) initial_hook) = Some 600 \<and>
   (0::real) \<le> 100 \<and> (100::real) < 400 \<and> (300::real) \<le> 400 \<and>
   (\<exists>r. 0 \<le> r \<and> r < 1 \<and> reconnectTimer (onclose r initial_hook) = Some 600) \<and>
   {r. 0 \<le> r \<and> r < 1 \<and>
       (\<exists>j. 100 \<le> j \<and> j < 300 \<and> reconnectTimer (onclose r initial_hook) = Some (500 + j))}
     = {1 / 4 ..< 3 / 4}"
proof -
  note big = C6_backoff_delay [of "initial_hook\<lparr>retryRef := 11\<rparr>" "1 / 4"]
  note first = C6_backoff_delay [of initial_hook "1 / 4"]
  have nc: "\<not> cancelled (initial_hook\<lparr>retryRef := 11\<rparr>)" "\<not> cancelled initial_hook"
    by (simp_all add: initial_hook_def)
  have r: "(0::real) \<le> 1 / 4" "(1 / 4 :: real) < 1" by simp_all
  have base: "retryRef initial_hook = 0"
    by (simp add: initial_hook_def)
  from big [OF nc(1) r]
  have b1: "retryCount (onclose (1 / 4) (initial_hook\<lparr>retryRef := 11\<rparr>)) = 12"
    and b2: "reconnectTimer (onclose (1 / 4) (initial_hook\<lparr>retryRef := 11\<rparr>)) = Some 5100"
    by (simp_all add: initial_hook_def)
  from first [OF nc(2) r]
  have f1: "retryCount (onclose (1 / 4) initial_hook) = 1"
    and f2: "reconnectTimer (onclose (1 / 4) initial_hook) = Some 600"
    by (simp_all add: initial_hook_def)
  from first [OF nc(2) r]
  have cover: "\<forall>j. 0 \<le> j \<and> j < 400 \<longrightarrow>
            (\<exists>r. 0 \<le> r \<and> r < 1 \<and>
                 reconnectTimer (onclose r initial_hook) =
                   Some (min 5000 (500 * real (retryRef initial_hook + 1)) + j))"
    and pre: "\<forall>a b. 0 \<le> a \<and> b \<le> 400 \<longrightarrow>
            {r. 0 \<le> r \<and> r < 1 \<and>
                (\<exists>j. a \<le> j \<and> j < b \<and>
                     reconnectTimer (onclose r initial_hook) =
                       Some (min 5000 (500 * real (retryRef initial_hook + 1)) + j))}
              = {a / 400 ..< b / 400}"
    by blast+
  have j: "(0::real) \<le> 100" "(100::real) < 400" "(300::real) \<le> 400" by simp_all
  from cover [rule_format, of 100] j
  have c: "\<exists>r. 0 \<le> r \<and> r < 1 \<and> reconnectTimer (onclose r initial_hook) = Some 600"
    by (simp add: base)
  from pre [rule_format, of 100 300] j
  have p: "{r. 0 \<le> r \<and> r < 1 \<and>
       (\<exists>j. 100 \<le> j \<and> j < 300 \<and> reconnectTimer (onclose r initial_hook) = Some (500 + j))}
     = {1 / 4 ..< 3 / 4}"
    by (simp add: base)
  from nc(1) r b1 b2 f1 f2 j c p show ?thesis by blast
qed

section \<open>The reducer\<close>

lemma reduceAll_snoc: "reduceAll state (as @ [a]) = chatReducer (reduceAll state as) a"
  by (simp add: reduceAll_def)

text \<open>
  C7. From any view, a history of the single message \<open>m\<close> followed by an edit of
  \<open>m\<close>'s id with content \<open>x\<close> leaves exactly one message, \<open>m\<close> with content \<open>x\<close>
  and the edited flag set. A history event, after any events, replaces the whole view
  by its messages sorted ascending by timestamp: the view is then sorted and has
  exactly the messages of the event.
\<close>

theorem C7_history_then_edit:
  "messages (reduceAll state
      [History [m],
       Edit \<lparr>edit_ident = ident m, edit_timestamp = t, edit_content = ''x''\<rparr>])
     = [m\<lparr>content := ''x'', edited := Some True\<rparr>] \<and>
   messages (reduceAll state (as @ [History ms])) = sort_key timestamp ms \<and>
   sorted (map timestamp (messages (reduceAll state (as @ [History ms])))) \<and>
   mset (messages (reduceAll state (as @ [History ms]))) = mset ms"
proof (intro conjI)
  show "messages (reduceAll state
      [History [m],
       Edit \<lparr>edit_ident = ident m, edit_timestamp = t, edit_content = ''x''\<rparr>])
     = [m\<lparr>content := ''x'', edited := Some True\<rparr>]"
    by (simp add: reduceAll_def)
  show h: "messages (reduceAll state (as @ [History ms])) = sort_key timestamp ms"
    by (simp add: reduceAll_snoc)
  show "sorted (map timestamp (messages (reduceAll state (as @ [History ms]))))"
    by (simp add: h)
  show "mset (messages (reduceAll state (as @ [History ms]))) = mset ms"
    by (simp add: h)
qed

section \<open>The capacity of the view\<close>

lemma addToBuffer_capacity:
  "within_capacity s \<Longrightarrow> within_capacity (addToBuffer m s)"
  by (simp add: within_capacity_def addToBuffer_def MAX_BUFFER_SIZE_def Let_def)

lemma editInBuffer_capacity:
  "within_capacity s \<Longrightarrow> within_capacity (editInBuffer i c s)"
  by (simp add: within_capacity_def editInBuffer_def)

lemma removeFromBuffer_capacity:
  assumes "within_capacity s"
  shows "within_capacity (removeFromBuffer i s)"
proof -
  have "length (filter (\<lambda>message. ident message \<noteq> i) (messageBuffer s)) \<le> length (messageBuffer s)"
    by (rule length_filter_le)
  moreover from assms have "length (messageBuffer s) \<le> 100"
    by (simp add: within_capacity_def)
  ultimately have "length (filter (\<lambda>message. ident message \<noteq> i) (messageBuffer s)) \<le> 100"
    by (rule order_trans)
  with assms show ?thesis
    by (simp add: within_capacity_def removeFromBuffer_def)
qed

lemma send_capacity:
  "well_formed payload \<Longrightarrow> within_capacity s \<Longrightarrow>
   within_capacity (state_of (send net c payload s))"
  by (cases "net c") (simp_all add: send_def within_capacity_def)

lemma forEach_send_capacity:
  "well_formed payload \<Longrightarrow> within_capacity s \<Longrightarrow>
   within_capacity (state_of (forEach_send net payload cs s))"
proof (induction cs arbitrary: s)
  case Nil
  then show ?case by simp
next
  case (Cons c cs)
  have step: "within_capacity (state_of (send net c payload s))"
    using Cons.prems by (rule send_capacity)
  show ?case
  proof (cases "send net c payload s")
    case (Returned t)
    with step have "within_capacity t" by simp
    with Cons.prems(1) have "within_capacity (state_of (forEach_send net payload cs t))"
      by (rule Cons.IH)
    with Returned show ?thesis by simp
  next
    case (Raised t)
    with step show ?thesis by simp
  qed
qed

lemma exec_capacity:
  "stmt_ok st \<Longrightarrow> within_capacity s \<Longrightarrow> within_capacity (state_of (exec net st s))"
  by (cases st)
     (simp_all add: addToBuffer_capacity editInBuffer_capacity removeFromBuffer_capacity
        broadcastMessage_def forEach_send_capacity)

lemma run_capacity:
  "list_all stmt_ok body \<Longrightarrow> within_capacity s \<Longrightarrow> within_capacity (state_of (run net body s))"
proof (induction body arbitrary: s)
  case Nil
  then show ?case by simp
next
  case (Cons st body)
  then have ok: "stmt_ok st" and rest: "list_all stmt_ok body" by simp_all
  have step: "within_capacity (state_of (exec net st s))"
    using ok Cons.prems(2) by (rule exec_capacity)
  show ?case
  proof (cases "exec net st s")
    case (Returned t)
    with step have "within_capacity t" by simp
    with rest have "within_capacity (state_of (run net body t))"
      by (rule Cons.IH)
    with Returned show ?thesis by simp
  next
    case (Raised t)
    with step show ?thesis by simp
  qed
qed

lemma messageCreate_ok: "list_all stmt_ok (messageCreate ev)"
  by (simp add: messageCreate_def broadcastChatMessage_def)

lemma messageUpdate_ok: "list_all stmt_ok (messageUpdate ev s)"
  by (simp add: messageUpdate_def)

lemma messageDelete_ok: "list_all stmt_ok (messageDelete ev)"
  by (simp add: messageDelete_def)

lemma action_body_ok: "list_all stmt_ok (action_body a)"
  by (cases a) (simp_all add: broadcastChatMessage_def)

lemma actions_handler_ok: "list_all stmt_ok (actions_handler actions)"
  by (induction actions) (simp_all add: actions_handler_def action_body_ok)

lemma ws_open_capacity:
  assumes "within_capacity s"
  shows "within_capacity (state_of (ws_open net w s))"
proof -
  let ?s1 = "s\<lparr>clients := (if w \<in> set (clients s) then clients s else clients s @ [w])\<rparr>"
  have s1: "within_capacity ?s1"
    using assms by (simp add: within_capacity_def)
  show ?thesis
  proof (cases "messageBuffer s = []")
    case True
    with s1 show ?thesis by (simp add: ws_open_def Let_def)
  next
    case False
    have "well_formed (MsgHistory (messageBuffer ?s1))"
      using assms by (simp add: within_capacity_def)
    then have "within_capacity (state_of (send net w (MsgHistory (messageBuffer ?s1)) ?s1))"
      using s1 by (rule send_capacity)
    with False show ?thesis by (simp add: ws_open_def Let_def)
  qed
qed

lemma ws_close_capacity: "within_capacity s \<Longrightarrow> within_capacity (ws_close w s)"
  by (simp add: within_capacity_def ws_close_def)

lemma server_step_capacity:
  assumes "within_capacity s"
  shows "within_capacity (server_step s e)"
proof (cases e)
  case (Pair net ev)
  show ?thesis
  proof (cases ev)
    case (DiscordCreate d)
    with Pair show ?thesis
      using run_capacity [OF messageCreate_ok assms] by simp
  next
    case (DiscordUpdate d)
    with Pair show ?thesis
      using run_capacity [OF messageUpdate_ok assms] by simp
  next
    case (DiscordDelete d)
    with Pair show ?thesis
      using run_capacity [OF messageDelete_ok assms] by simp
  next
    case (YouTubeActions as)
    with Pair show ?thesis
      using run_capacity [OF actions_handler_ok assms] by simp
  next
    case (WsOpen w)
    with Pair show ?thesis
      using ws_open_capacity [OF assms] by simp
  next
    case (WsClose w)
    with Pair show ?thesis
      using ws_close_capacity [OF assms] by simp
  qed
qed

lemma serve_capacity: "within_capacity s \<Longrightarrow> within_capacity (serve evs s)"
proof (induction evs arbitrary: s)
  case Nil
  then show ?case by (simp add: serve_def)
next
  case (Cons e evs)
  from Cons.prems have "within_capacity (server_step s e)"
    by (rule server_step_capacity)
  then have "within_capacity (serve evs (server_step s e))"
    by (rule Cons.IH)
  then show ?case by (simp add: serve_def)
qed

lemma server0_capacity: "within_capacity server0"
  by (simp add: within_capacity_def server0_def)

lemma reducer_capacity:
  assumes "length (messages state) \<le> 100" and "well_formed frame"
  shows "length (messages (chatReducer state (handleIncoming frame))) \<le> 100"
proof (cases frame)
  case (MsgChat m)
  then show ?thesis by (simp add: Let_def)
next
  case (MsgDelete d)
  have "length (messages (chatReducer state (Delete d))) \<le> length (messages state)"
    by simp
  then have "length (messages (chatReducer state (Delete d))) \<le> 100"
    using assms(1) by (rule order_trans)
  with MsgDelete show ?thesis by simp
next
  case (MsgHistory ms)
  with assms(2) show ?thesis by simp
next
  case (MsgEdit e)
  with assms(1) show ?thesis by simp
qed

lemma view_after_snoc:
  "view_after (frames @ [frame]) = chatReducer (view_after frames) (handleIncoming frame)"
  by (simp add: view_after_def)

lemma view_after_capacity:
  "list_all well_formed frames \<Longrightarrow> length (messages (view_after frames)) \<le> 100"
proof (induction frames rule: rev_induct)
  case Nil
  then show ?case by (simp add: view_after_def)
next
  case (snoc frame frames)
  then have "length (messages (view_after frames)) \<le> 100" and "well_formed frame"
    by simp_all
  then show ?case
    unfolding view_after_snoc by (rule reducer_capacity)
qed

text \<open>
  C9. A reducer step applied to a view of at most 100 entries yields a view of at
  most 100 entries, for every well-formed incoming event, whichever of the four kinds
  it is; every frame the server ever sends is well-formed, since the history it
  sends is its buffer, which never exceeds 100 entries; so the view a client builds
  from the empty view out of well-formed frames never holds more than 100 entries.
\<close>

theorem C9_view_bound:
  "(length (messages state) \<le> 100 \<and> well_formed frame \<longrightarrow>
      length (messages (chatReducer state (handleIncoming frame))) \<le> 100) \<and>
   (\<forall>(c, sent) \<in> set (outbox (serve evs server0)). well_formed sent) \<and>
   (list_all well_formed frames \<longrightarrow> length (messages (view_after frames)) \<le> 100)"
proof (intro conjI impI)
  assume "length (messages state) \<le> 100 \<and> well_formed frame"
  then show "length (messages (chatReducer state (handleIncoming frame))) \<le> 100"
    by (simp add: reducer_capacity)
next
  have "within_capacity (serve evs server0)"
    using server0_capacity by (rule serve_capacity)
  then show "\<forall>(c, sent) \<in> set (outbox (serve evs server0)). well_formed sent"
    by (simp add: within_capacity_def list_all_iff)
next
  assume "list_all well_formed frames"
  then show "length (messages (view_after frames)) \<le> 100"
    by (rule view_after_capacity)
qed

theorem C9_view_bound_witness:
  "length (messages \<lparr>messages = [chat discord ''a'' 0 ''bob'' ''hi'']\<rparr>) \<le> 100 \<and>
   well_formed (MsgHistory [chat youtube ''b'' 1 ''eve'' ''yo'']) \<and>
   length (messages (chatReducer \<lparr>messages = [chat discord ''a'' 0 ''bob'' ''hi'']\<rparr>
                       (handleIncoming (MsgHistory [chat youtube ''b'' 1 ''eve'' ''yo''])))) \<le> 100 \<and>
   outbox (serve [(net_ok, YouTubeActions [AddChatItemAction ''b'' 1 (Some ''eve'') [] ''yo'']),
                  (net_ok, WsOpen 9)] server0)
     = [(9, MsgHistory [chat youtube ''b'' 1 ''eve'' ''yo''])] \<and>
   well_formed (MsgHistory [chat youtube ''b'' 1 ''eve'' ''yo'']) \<and>
   well_formed (MsgChat (chat discord ''a'' 0 ''bob'' ''hi'')) \<and>
   length (messages (view_after [MsgHistory [chat youtube ''b'' 1 ''eve'' ''yo''],
                                 MsgChat (chat discord ''a'' 0 ''bob'' ''hi'')])) \<le> 100"
proof -
  let ?a = "chat discord ''a'' 0 ''bob'' ''hi''"
  let ?b = "chat youtube ''b'' 1 ''eve'' ''yo''"
  let ?evs = "[(net_ok, YouTubeActions [AddChatItemAction ''b'' 1 (Some ''eve'') [] ''yo'']),
               (net_ok, WsOpen 9)]"
  note inst = C9_view_bound [where state = "\<lparr>messages = [?a]\<rparr>" and frame = "MsgHistory [?b]"
      and evs = ?evs and frames = "[MsgHistory [?b], MsgChat ?a]"]
  have view: "length (messages \<lparr>messages = [?a]\<rparr>) \<le> 100" by simp
  have wf: "well_formed (MsgHistory [?b])" "well_formed (MsgChat ?a)" by simp_all
  have out: "outbox (serve ?evs server0) = [(9, MsgHistory [?b])]"
    by (simp add: serve_def actions_handler_def broadcastChatMessage_def broadcastMessage_def
        addToBuffer_def MAX_BUFFER_SIZE_def ws_open_def send_def net_ok_def server0_def chat_def
        Let_def)
  from inst view wf(1)
  have step: "length (messages (chatReducer \<lparr>messages = [?a]\<rparr> (handleIncoming (MsgHistory [?b])))) \<le> 100"
    by blast
  from inst have "\<forall>(c, sent) \<in> set (outbox (serve ?evs server0)). well_formed sent"
    by blast
  then have sent: "well_formed (MsgHistory [?b])"
    unfolding out by simp
  from wf have "list_all well_formed [MsgHistory [?b], MsgChat ?a]" by simp
  with inst have run: "length (messages (view_after [MsgHistory [?b], MsgChat ?a])) \<le> 100"
    by blast
  from view wf step out sent run show ?thesis by blast
qed

section \<open>Grouping\<close>

lemma new_group_ok: "group_ok (new_group m)"
  by (simp add: group_ok_def new_group_def)

lemma snoc_last: "groups \<noteq> [] \<Longrightarrow> butlast groups @ [last groups] = groups"
  by simp

lemma last_group_ok: "groups \<noteq> [] \<Longrightarrow> list_all group_ok groups \<Longrightarrow> group_ok (last groups)"
  by (simp add: list_all_iff)

lemma butlast_groups_ok: "list_all group_ok groups \<Longrightarrow> list_all group_ok (butlast groups)"
  by (auto simp: list_all_iff dest: in_set_butlastD)

text \<open>On a group of the loop, the code's comparison with the last member is the
  comparison with the first member.\<close>

lemma last_member_like_first:
  assumes "group_ok g"
  shows "platform (last (group_messages g)) = platform (first g)"
    and "name (author (last (group_messages g))) = name (author (first g))"
proof -
  from assms have ne: "group_messages g \<noteq> []"
    and all: "list_all (\<lambda>m. platform m = platform (first g) \<and>
                     name (author m) = name (author (first g))) (group_messages g)"
    by (simp_all add: group_ok_def)
  from ne have "last (group_messages g) \<in> set (group_messages g)" by simp
  with all show "platform (last (group_messages g)) = platform (first g)"
    and "name (author (last (group_messages g))) = name (author (first g))"
    by (simp_all add: list_all_iff)
qed

lemma group_step_cases:
  assumes "groups \<noteq> []" and "group_ok (last groups)"
  shows "group_step groups m =
     (if platform m = platform (first (last groups)) \<and>
         name (author m) = name (author (first (last groups))) \<and>
         \<bar>timestamp (first (last groups)) - timestamp m\<bar> \<le> 300000
      then butlast groups @ [(last groups)\<lparr>group_messages := group_messages (last groups) @ [m]\<rparr>]
      else groups @ [new_group m])"
proof -
  from assms(2) have ne: "group_messages (last groups) \<noteq> []"
    by (simp add: group_ok_def)
  show ?thesis
    using assms(1) ne last_member_like_first [OF assms(2)]
    by (simp add: group_step_def Let_def GROUP_WINDOW_MS_def)
qed

lemma extended_group_ok:
  assumes "group_ok g" and "platform m = platform (first g)"
      and "name (author m) = name (author (first g))"
  shows "group_ok (g\<lparr>group_messages := group_messages g @ [m]\<rparr>)"
  using assms by (simp add: group_ok_def)

lemma group_step_ok:
  assumes "list_all group_ok groups"
  shows "list_all group_ok (group_step groups m)"
proof (cases "groups = []")
  case True
  then show ?thesis by (simp add: group_step_def new_group_ok)
next
  case False
  with assms have lg: "group_ok (last groups)" by (simp add: last_group_ok)
  have bl: "list_all group_ok (butlast groups)"
    using assms by (rule butlast_groups_ok)
  show ?thesis
    using assms bl lg
    by (simp add: group_step_cases [OF False lg] new_group_ok extended_group_ok)
qed

lemma groupMessages_snoc: "groupMessages (ms @ [m]) = group_step (groupMessages ms) m"
  by (simp add: groupMessages_def)

lemma groupMessages_ok: "list_all group_ok (groupMessages ms)"
proof (induction ms rule: rev_induct)
  case Nil
  then show ?case by (simp add: groupMessages_def)
next
  case (snoc m ms)
  then show ?case by (simp add: groupMessages_snoc group_step_ok)
qed

lemma spec_group_step_eq:
  assumes "list_all group_ok groups"
  shows "spec_group_step groups m = group_step groups m"
proof (cases "groups = []")
  case True
  then show ?thesis by (simp add: spec_group_step_def group_step_def)
next
  case False
  with assms have lg: "group_ok (last groups)" by (simp add: last_group_ok)
  then have ne: "group_messages (last groups) \<noteq> []"
    and hd: "hd (group_messages (last groups)) = first (last groups)"
    by (simp_all add: group_ok_def)
  have sym: "\<bar>timestamp m - timestamp (first (last groups))\<bar> =
             \<bar>timestamp (first (last groups)) - timestamp m\<bar>"
    by (rule abs_minus_commute)
  show ?thesis
    using False ne
    by (simp add: group_step_cases [OF False lg] spec_group_step_def hd sym)
qed

lemma spec_groupMessages_eq: "spec_groupMessages ms = groupMessages ms"
proof (induction ms rule: rev_induct)
  case Nil
  then show ?case by (simp add: spec_groupMessages_def groupMessages_def)
next
  case (snoc m ms)
  have "spec_groupMessages (ms @ [m]) = spec_group_step (spec_groupMessages ms) m"
    by (simp add: spec_groupMessages_def)
  also have "\<dots> = spec_group_step (groupMessages ms) m"
    by (simp add: snoc)
  also have "\<dots> = group_step (groupMessages ms) m"
    using groupMessages_ok by (rule spec_group_step_eq)
  finally show ?case by (simp add: groupMessages_snoc)
qed

lemma groupMessages_two:
  "groupMessages [m1, m2] =
     (if platform m2 = platform m1 \<and> name (author m2) = name (author m1) \<and>
         \<bar>timestamp m1 - timestamp m2\<bar> \<le> 300000
      then [\<lparr>group_id = ident m1, first = m1, group_messages = [m1, m2]\<rparr>]
      else [new_group m1, new_group m2])"
  by (simp add: groupMessages_def group_step_def new_group_def Let_def GROUP_WINDOW_MS_def)

lemma group_step_concat:
  assumes "list_all group_ok groups"
  shows "concat (map group_messages (group_step groups m)) =
         concat (map group_messages groups) @ [m]"
proof (cases "groups = []")
  case True
  then show ?thesis by (simp add: group_step_def new_group_def)
next
  case False
  with assms have lg: "group_ok (last groups)" by (simp add: last_group_ok)
  have split: "concat (map group_messages groups) =
      concat (map group_messages (butlast groups)) @ group_messages (last groups)"
  proof -
    have "concat (map group_messages (butlast groups @ [last groups])) =
      concat (map group_messages (butlast groups)) @ group_messages (last groups)"
      by simp
    then show ?thesis using False by simp
  qed
  show ?thesis
    by (simp add: group_step_cases [OF False lg] split new_group_def)
qed

lemma groupMessages_concat: "concat (map group_messages (groupMessages ms)) = ms"
proof (induction ms rule: rev_induct)
  case Nil
  then show ?case by (simp add: groupMessages_def)
next
  case (snoc m ms)
  then show ?case
    by (simp add: groupMessages_snoc group_step_concat [OF groupMessages_ok])
qed

text \<open>
  C8. The loop groups as the rule says: scanning in order, a message joins the
  current group when that group is non-empty, the message has the platform and author
  name of the group's first message and its timestamp is within 300000 ms of the
  first message's timestamp, and starts a new group otherwise. Two messages of the
  same platform and author name form one group when their timestamps differ by at
  most 300000 ms (so at 0 and 299999) and two groups when they differ by more (so at
  0 and 300001).
\<close>

theorem C8_grouping_rule:
  "groupMessages ms = spec_groupMessages ms \<and>
   (platform m2 = platform m1 \<and> name (author m2) = name (author m1) \<longrightarrow>
      (\<bar>timestamp m2 - timestamp m1\<bar> \<le> 300000 \<longrightarrow>
         map group_messages (groupMessages [m1, m2]) = [[m1, m2]]) \<and>
      (\<bar>timestamp m2 - timestamp m1\<bar> > 300000 \<longrightarrow>
         map group_messages (groupMessages [m1, m2]) = [[m1], [m2]]))"
proof (intro conjI impI)
  show "groupMessages ms = spec_groupMessages ms"
    by (simp add: spec_groupMessages_eq)
next
  assume "platform m2 = platform m1 \<and> name (author m2) = name (author m1)"
    and "\<bar>timestamp m2 - timestamp m1\<bar> \<le> 300000"
  then show "map group_messages (groupMessages [m1, m2]) = [[m1, m2]]"
    by (simp add: groupMessages_two abs_minus_commute)
next
  assume "platform m2 = platform m1 \<and> name (author m2) = name (author m1)"
    and "\<bar>timestamp m2 - timestamp m1\<bar> > 300000"
  then show "map group_messages (groupMessages [m1, m2]) = [[m1], [m2]]"
    by (simp add: groupMessages_two abs_minus_commute new_group_def)
qed

theorem C8_grouping_rule_witness:
  "platform (chat discord ''b'' 300001 ''bob'' ''yo'') = platform (chat discord ''a'' 0 ''bob'' ''hi'') \<and>
   name (author (chat discord ''b'' 300001 ''bob'' ''yo'')) = name (author (chat discord ''a'' 0 ''bob'' ''hi'')) \<and>
   \<bar>timestamp (chat discord ''b'' 300001 ''bob'' ''yo'') - timestamp (chat discord ''a'' 0 ''bob'' ''hi'')\<bar> > 300000 \<and>
   map group_messages
     (groupMessages [chat discord ''a'' 0 ''bob'' ''hi'', chat discord ''b'' 300001 ''bob'' ''yo''])
     = [[chat discord ''a'' 0 ''bob'' ''hi''], [chat discord ''b'' 300001 ''bob'' ''yo'']] \<and>
   \<bar>timestamp (chat discord ''c'' 299999 ''bob'' ''yo'') - timestamp (chat discord ''a'' 0 ''bob'' ''hi'')\<bar> \<le> 300000 \<and>
   map group_messages
     (groupMessages [chat discord ''a'' 0 ''bob'' ''hi'', chat discord ''c'' 299999 ''bob'' ''yo''])
     = [[chat discord ''a'' 0 ''bob'' ''hi'', chat discord ''c'' 299999 ''bob'' ''yo'']]"
proof -
  let ?a = "chat discord ''a'' 0 ''bob'' ''hi''"
  let ?b = "chat discord ''b'' 300001 ''bob'' ''yo''"
  let ?c = "chat discord ''c'' 299999 ''bob'' ''yo''"
  have same: "platform ?b = platform ?a \<and> name (author ?b) = name (author ?a)"
             "platform ?c = platform ?a \<and> name (author ?c) = name (author ?a)"
    by (simp_all add: chat_def)
  have far: "\<bar>timestamp ?b - timestamp ?a\<bar> > 300000"
    by (simp add: chat_def)
  have near: "\<bar>timestamp ?c - timestamp ?a\<bar> \<le> 300000"
    by (simp add: chat_def)
  from C8_grouping_rule [of "[]" ?b ?a] same(1) far
  have two: "map group_messages (groupMessages [?a, ?b]) = [[?a], [?b]]"
    by blast
  from C8_grouping_rule [of "[]" ?c ?a] same(2) near
  have one: "map group_messages (groupMessages [?a, ?c]) = [[?a, ?c]]"
    by blast
  from same far near two one show ?thesis by blast
qed

text \<open>
  C10. The groups returned for a list of messages partition it in order: every
  group's member list is non-empty and starts with the group's recorded first
  message, and the member lists concatenated in order are the input list.
\<close>

theorem C10_grouping_partition:
  "(\<forall>g \<in> set (groupMessages ms).
      group_messages g \<noteq> [] \<and> hd (group_messages g) = first g) \<and>
   concat (map group_messages (groupMessages ms)) = ms"
proof
  show "\<forall>g \<in> set (groupMessages ms).
      group_messages g \<noteq> [] \<and> hd (group_messages g) = first g"
    using groupMessages_ok [of ms] by (simp add: list_all_iff group_ok_def)
  show "concat (map group_messages (groupMessages ms)) = ms"
    by (rule groupMessages_concat)
qed

theorem C10_grouping_partition_witness:
  "\<lparr>group_id = ''a'', first = chat discord ''a'' 0 ''bob'' ''hi'',
     group_messages = [chat discord ''a'' 0 ''bob'' ''hi'', chat discord ''b'' 5 ''bob'' ''yo'']\<rparr>
     \<in> set (groupMessages [chat discord ''a'' 0 ''bob'' ''hi'', chat discord ''b'' 5 ''bob'' ''yo'',
                            chat youtube ''c'' 7 ''eve'' ''hey'']) \<and>
   hd [chat discord ''a'' 0 ''bob'' ''hi'', chat discord ''b'' 5 ''bob'' ''yo'']
     = chat discord ''a'' 0 ''bob'' ''hi'' \<and>
   concat (map group_messages
     (groupMessages [chat discord ''a'' 0 ''bob'' ''hi'', chat discord ''b'' 5 ''bob'' ''yo'',
                     chat youtube ''c'' 7 ''eve'' ''hey'']))
     = [chat discord ''a'' 0 ''bob'' ''hi'', chat discord ''b'' 5 ''bob'' ''yo'',
        chat youtube ''c'' 7 ''eve'' ''hey'']"
proof -
  let ?ms = "[chat discord ''a'' 0 ''bob'' ''hi'', chat discord ''b'' 5 ''bob'' ''yo'',
              chat youtube ''c'' 7 ''eve'' ''hey'']"
  let ?g = "\<lparr>group_id = ''a'', first = chat discord ''a'' 0 ''bob'' ''hi'',
        group_messages = [chat discord ''a'' 0 ''bob'' ''hi'', chat discord ''b'' 5 ''bob'' ''yo'']\<rparr>"
  have groups: "groupMessages ?ms = [?g, new_group (chat youtube ''c'' 7 ''eve'' ''hey'')]"
    by (simp add: groupMessages_def group_step_def new_group_def chat_def Let_def GROUP_WINDOW_MS_def)
  then have member: "?g \<in> set (groupMessages ?ms)"
    by simp
  note inst = C10_grouping_partition [of ?ms]
  from inst member have "group_messages ?g \<noteq> [] \<and> hd (group_messages ?g) = first ?g"
    by blast
  then have lead: "hd [chat discord ''a'' 0 ''bob'' ''hi'', chat discord ''b'' 5 ''bob'' ''yo'']
     = chat discord ''a'' 0 ''bob'' ''hi''"
    by simp
  from inst have whole: "concat (map group_messages (groupMessages ?ms)) = ?ms"
    by blast
  from member lead whole show ?thesis by blast
qed

end
